theory Spec2Isabelle
  imports Complex_Main
begin

section \<open>Floating-point values\<close>

text \<open>
  The Python and NumPy floats of the source are modelled as real numbers extended with
  the three special values of IEEE arithmetic. The operations below are exact on finite
  values; the rounding of binary64, with its overflow and underflow, is the function
  \<open>b64\<close>, applied after each operation where a claim depends on it. The sign of zero
  is not modelled (a zero divisor is taken as \<open>+0.0\<close>). The special values follow NumPy,
  which returns \<open>inf\<close> or \<open>nan\<close> with a warning where plain Python would raise.
\<close>

datatype pyfloat = Fin real | PInf | NInf | NaN

text \<open>
  The error taxonomy. \<open>ValueError\<close> is what pandas raises on comparing series whose
  indexes differ. \<open>InvalidParameterError\<close> and \<open>NoConvergentModelError\<close> are named by
  the specification; the source defines no exception class and has no \<open>raise\<close>
  statement.
\<close>

datatype error = ValueError | InvalidParameterError | NoConvergentModelError

fun fneg :: "pyfloat \<Rightarrow> pyfloat" where
  "fneg (Fin r) = Fin (- r)"
| "fneg PInf = NInf"
| "fneg NInf = PInf"
| "fneg NaN = NaN"

fun fadd :: "pyfloat \<Rightarrow> pyfloat \<Rightarrow> pyfloat" where
  "fadd NaN _ = NaN"
| "fadd _ NaN = NaN"
| "fadd (Fin a) (Fin b) = Fin (a + b)"
| "fadd PInf NInf = NaN"
| "fadd NInf PInf = NaN"
| "fadd PInf _ = PInf"
| "fadd NInf _ = NInf"
| "fadd (Fin a) b = b"

definition fsub :: "pyfloat \<Rightarrow> pyfloat \<Rightarrow> pyfloat" where
  "fsub a b = fadd a (fneg b)"

text \<open>The sign of a product with an infinite factor; zero times infinity is \<open>nan\<close>.\<close>

definition inf_signed :: "real \<Rightarrow> pyfloat" where
  "inf_signed s = (if s = 0 then NaN else if 0 < s then PInf else NInf)"

fun fmul :: "pyfloat \<Rightarrow> pyfloat \<Rightarrow> pyfloat" where
  "fmul NaN _ = NaN"
| "fmul _ NaN = NaN"
| "fmul (Fin a) (Fin b) = Fin (a * b)"
| "fmul (Fin a) PInf = inf_signed a"
| "fmul (Fin a) NInf = inf_signed (- a)"
| "fmul PInf (Fin b) = inf_signed b"
| "fmul NInf (Fin b) = inf_signed (- b)"
| "fmul PInf PInf = PInf"
| "fmul NInf NInf = PInf"
| "fmul PInf NInf = NInf"
| "fmul NInf PInf = NInf"

text \<open>NumPy true division: a finite non-zero value over zero is infinite, \<open>0/0\<close> and
  \<open>inf/inf\<close> are \<open>nan\<close>, a finite value over an infinite one is zero.\<close>

fun fdiv :: "pyfloat \<Rightarrow> pyfloat \<Rightarrow> pyfloat" where
  "fdiv NaN _ = NaN"
| "fdiv _ NaN = NaN"
| "fdiv (Fin a) (Fin b) = (if b = 0 then inf_signed a else Fin (a / b))"
| "fdiv (Fin a) PInf = Fin 0"
| "fdiv (Fin a) NInf = Fin 0"
| "fdiv PInf (Fin b) = (if 0 \<le> b then PInf else NInf)"
| "fdiv NInf (Fin b) = (if 0 \<le> b then NInf else PInf)"
| "fdiv PInf _ = NaN"
| "fdiv NInf _ = NaN"

text \<open>\<open>np.log\<close>: minus infinity at zero, \<open>nan\<close> below it.\<close>

fun flog :: "pyfloat \<Rightarrow> pyfloat" where
  "flog (Fin r) = (if 0 < r then Fin (ln r) else if r = 0 then NInf else NaN)"
| "flog PInf = PInf"
| "flog NInf = NaN"
| "flog NaN = NaN"

text \<open>\<open>np.sqrt\<close>: \<open>nan\<close> on negative values.\<close>

fun fsqrt :: "pyfloat \<Rightarrow> pyfloat" where
  "fsqrt (Fin r) = (if r < 0 then NaN else Fin (sqrt r))"
| "fsqrt PInf = PInf"
| "fsqrt NInf = NaN"
| "fsqrt NaN = NaN"

text \<open>A float raised to a non-negative integer power (\<open>base ** k\<close>); any base to the
  power zero is one.\<close>

fun fpow :: "pyfloat \<Rightarrow> nat \<Rightarrow> pyfloat" where
  "fpow (Fin r) k = Fin (r ^ k)"
| "fpow PInf k = (if k = 0 then Fin 1 else PInf)"
| "fpow NInf k = (if k = 0 then Fin 1 else if even k then PInf else NInf)"
| "fpow NaN k = (if k = 0 then Fin 1 else NaN)"

text \<open>The comparison \<open><\<close>: false whenever an operand is \<open>nan\<close>.\<close>

fun flt :: "pyfloat \<Rightarrow> pyfloat \<Rightarrow> bool" where
  "flt NaN _ = False"
| "flt _ NaN = False"
| "flt (Fin a) (Fin b) = (a < b)"
| "flt NInf NInf = False"
| "flt NInf _ = True"
| "flt _ NInf = False"
| "flt PInf _ = False"
| "flt (Fin a) PInf = True"

text \<open>Rounding to the nearest integer, ties to the even one (\<open>np.rint\<close>), and the
  two-decimal rounding \<open>round(v, 2)\<close> of a NumPy float built on it.\<close>

definition rint :: "real \<Rightarrow> int" where
  "rint r = (let f = \<lfloor>r\<rfloor>; d = r - of_int f in
     if d < 1 / 2 then f else if 1 / 2 < d then f + 1 else if even f then f else f + 1)"

fun fround2 :: "pyfloat \<Rightarrow> pyfloat" where
  "fround2 (Fin r) = Fin (of_int (rint (r * 100)) / 100)"
| "fround2 v = v"

text \<open>A cumulative distribution function of SciPy applied to a float: \<open>nan\<close> is passed
  through, the infinities give 0 and 1.\<close>

fun fcdf :: "(real \<Rightarrow> real) \<Rightarrow> pyfloat \<Rightarrow> pyfloat" where
  "fcdf cdf (Fin r) = Fin (cdf r)"
| "fcdf cdf PInf = Fin 1"
| "fcdf cdf NInf = Fin 0"
| "fcdf cdf NaN = NaN"

text \<open>
  Rounding to binary64, to nearest with ties to the even significand: the spacing of
  the representable values around \<open>r\<close> is \<open>2 ^ e\<close> with \<open>e = max (floor (log2 |r|) - 52)
  (-1074)\<close>, values below half the smallest subnormal \<open>2 ^ -1074\<close> become zero, and a
  rounded magnitude of \<open>2 ^ 1024\<close> or more becomes an infinity. \<open>rd rnd\<close> rounds the finite
  result of an operation with \<open>rnd\<close> and passes the special values through.
\<close>

definition pow2 :: "int \<Rightarrow> real" where
  "pow2 e = (if 0 \<le> e then 2 ^ nat e else 1 / 2 ^ nat (- e))"

definition b64 :: "real \<Rightarrow> pyfloat" where
  "b64 r =
     (if r = 0 then Fin 0
      else
        let e = max (\<lfloor>log 2 \<bar>r\<bar>\<rfloor> - 52) (- 1074);
            v = real_of_int (rint (r / pow2 e)) * pow2 e
        in if 2 ^ 1024 \<le> \<bar>v\<bar> then (if 0 < r then PInf else NInf) else Fin v)"

definition rd :: "(real \<Rightarrow> pyfloat) \<Rightarrow> pyfloat \<Rightarrow> pyfloat" where
  "rd rnd v = (case v of Fin r \<Rightarrow> rnd r | _ \<Rightarrow> v)"

definition fround2r :: "(real \<Rightarrow> pyfloat) \<Rightarrow> pyfloat \<Rightarrow> pyfloat" where
  "fround2r rnd v =
     (case rd rnd (fmul v (Fin 100)) of
        Fin s \<Rightarrow> rd rnd (fdiv (Fin (real_of_int (rint s))) (Fin 100))
      | w \<Rightarrow> w)"

section \<open>volatility.py\<close>

text \<open>
  \<open>compute_var(variance, dist, alpha)\<close>: \<open>dist.ppf\<close> is the quantile function of the
  distribution object handed in by the caller.
\<close>

definition compute_var :: "pyfloat list \<Rightarrow> (real \<Rightarrow> pyfloat) \<Rightarrow> real \<Rightarrow> pyfloat list" where
  "compute_var variance ppf alpha =
     (let sigma = map fsqrt variance;
          q = ppf alpha
      in map (fmul q) sigma)"

text \<open>
  \<open>backtest_var(returns, var_series, alpha)\<close>. The two series are lists of values over a
  common index; series of different lengths have different indexes and their comparison
  raises. \<open>chi2.cdf(., 1)\<close> of SciPy is the parameter \<open>cdf\<close>.
\<close>

record kupiec_report =
  alpha_of :: real
  n_of :: nat
  violations :: int
  violation_ratio :: pyfloat
  kupiec_lr :: pyfloat
  p_value :: pyfloat

definition exceptions :: "pyfloat list \<Rightarrow> pyfloat list \<Rightarrow> nat list" where
  "exceptions returns var_series =
     map (\<lambda>(r, v). if flt r v then 1 else 0) (zip returns var_series)"

definition backtest_var ::
  "(real \<Rightarrow> real) \<Rightarrow> pyfloat list \<Rightarrow> pyfloat list \<Rightarrow> real \<Rightarrow> error + kupiec_report" where
  "backtest_var cdf returns var_series alpha =
     (if length returns \<noteq> length var_series then Inl ValueError
      else
        let exs = exceptions returns var_series;
            n = length exs;
            x = sum_list exs;
            pi_hat = fdiv (Fin (real x)) (Fin (real n));
            (lr_uc, p) =
              (if x = 0 \<or> x = n then (NaN, NaN)
               else
                 let lr = fmul (Fin (- 2))
                       (fsub
                          (flog (fmul (fpow (Fin (1 - alpha)) (n - x)) (fpow (Fin alpha) x)))
                          (flog (fmul (fpow (fsub (Fin 1) pi_hat) (n - x)) (fpow pi_hat x))))
                 in (lr, fsub (Fin 1) (fcdf cdf lr)))
        in Inr \<lparr> alpha_of = alpha, n_of = n, violations = int x,
                 violation_ratio = fround2 (fdiv pi_hat (Fin alpha)),
                 kupiec_lr = lr_uc, p_value = p \<rparr>)"

text \<open>
  The same function with the result of every floating-point operation rounded by
  \<open>rnd\<close>: \<open>backtest_var\<close> above is the instance with exact arithmetic, \<open>rnd = Fin\<close>, and
  \<open>rnd = b64\<close> gives the arithmetic the interpreter runs. The integers \<open>x\<close> and \<open>n\<close> are
  converted exactly; \<open>**\<close>, \<open>np.log\<close> and \<open>chi2.cdf\<close> are taken as correctly rounded.
\<close>

definition backtest_var_rounded ::
  "(real \<Rightarrow> pyfloat) \<Rightarrow> (real \<Rightarrow> real) \<Rightarrow> pyfloat list \<Rightarrow> pyfloat list \<Rightarrow> real \<Rightarrow>
   error + kupiec_report" where
  "backtest_var_rounded rnd cdf returns var_series alpha =
     (if length returns \<noteq> length var_series then Inl ValueError
      else
        let exs = exceptions returns var_series;
            n = length exs;
            x = sum_list exs;
            pi_hat = rd rnd (fdiv (Fin (real x)) (Fin (real n)));
            (lr_uc, p) =
              (if x = 0 \<or> x = n then (NaN, NaN)
               else
                 let l0 = rd rnd (flog (rd rnd (fmul
                            (rd rnd (fpow (rd rnd (fsub (Fin 1) (Fin alpha))) (n - x)))
                            (rd rnd (fpow (Fin alpha) x)))));
                     l1 = rd rnd (flog (rd rnd (fmul
                            (rd rnd (fpow (rd rnd (fsub (Fin 1) pi_hat)) (n - x)))
                            (rd rnd (fpow pi_hat x)))));
                     lr = rd rnd (fmul (Fin (- 2)) (rd rnd (fsub l0 l1)))
                 in (lr, rd rnd (fsub (Fin 1) (rd rnd (fcdf cdf lr)))))
        in Inr \<lparr> alpha_of = alpha, n_of = n, violations = int x,
                 violation_ratio = fround2r rnd (rd rnd (fdiv pi_hat (Fin alpha))),
                 kupiec_lr = lr_uc, p_value = p \<rparr>)"

section \<open>risk_metrics.py\<close>

text \<open>
  \<open>compute_es(sigma, dof, alpha)\<close>. \<open>student_t.ppf\<close> and \<open>student_t.pdf\<close> of SciPy are the
  parameters \<open>ppf\<close> and \<open>pdf\<close>; both return NumPy floats, so the division below is NumPy's
  and yields an infinity or \<open>nan\<close> on a zero divisor. The returned series carries the
  name \<open>ES_<level>\<close>, of which \<open>es_level\<close> is the integer; \<open>int(.)\<close> truncates towards zero.
\<close>

definition py_int :: "real \<Rightarrow> int" where
  "py_int r = (if 0 \<le> r then \<lfloor>r\<rfloor> else \<lceil>r\<rceil>)"

record es_series =
  es_level :: int
  es_values :: "pyfloat list"

definition compute_es ::
  "(real \<Rightarrow> real \<Rightarrow> pyfloat) \<Rightarrow> (pyfloat \<Rightarrow> real \<Rightarrow> pyfloat) \<Rightarrow>
   pyfloat list \<Rightarrow> real \<Rightarrow> real \<Rightarrow> error + es_series" where
  "compute_es ppf pdf sigma dof alpha =
     (let q = ppf alpha dof;
          f_q = pdf q dof;
          es_std = fdiv (fmul (fneg f_q) (fadd (Fin dof) (fpow q 2)))
                        (Fin ((dof - 1) * alpha));
          es = map (fmul es_std) sigma
      in Inr \<lparr> es_level = py_int ((1 - alpha) * 100), es_values = es \<rparr>)"

text \<open>
  \<open>christoffersen_test(exceedances)\<close>. The counts are NumPy integers, \<open>np.nan\<close> in the
  report for fewer than two observations. An integer count multiplied by a float is
  converted to float first.
\<close>

datatype pyval = PyInt int | PyFloat pyfloat

record christoffersen_report =
  n00_of :: pyval
  n01_of :: pyval
  n10_of :: pyval
  n11_of :: pyval
  lr_ind :: pyfloat
  ind_p_value :: pyfloat

definition transitions :: "int list \<Rightarrow> (int \<times> int) list" where
  "transitions x = zip (butlast x) (tl x)"

definition count_tr :: "int \<Rightarrow> int \<Rightarrow> int list \<Rightarrow> nat" where
  "count_tr a b x = length (filter (\<lambda>(s, t). s = a \<and> t = b) (transitions x))"

definition fnat :: "nat \<Rightarrow> pyfloat" where
  "fnat k = Fin (real k)"

text \<open>The two log-likelihoods, functions of the four counts.\<close>

definition logL0 :: "nat \<Rightarrow> nat \<Rightarrow> nat \<Rightarrow> nat \<Rightarrow> pyfloat" where
  "logL0 n00 n01 n10 n11 =
     (let pi = fdiv (fnat (n01 + n11)) (fnat (n00 + n01 + n10 + n11))
      in fadd (fmul (fnat (n00 + n01)) (flog (fsub (Fin 1) pi)))
              (fmul (fnat (n10 + n11)) (flog pi)))"

definition logL1 :: "nat \<Rightarrow> nat \<Rightarrow> nat \<Rightarrow> nat \<Rightarrow> pyfloat" where
  "logL1 n00 n01 n10 n11 =
     (let pi_01 = fdiv (fnat n01) (fnat (n00 + n01));
          pi_11 = fdiv (fnat n11) (fnat (n10 + n11))
      in fadd (fadd (fadd (fmul (fnat n00) (flog (fsub (Fin 1) pi_01)))
                          (fmul (fnat n01) (flog pi_01)))
                    (fmul (fnat n10) (flog (fsub (Fin 1) pi_11))))
              (fmul (fnat n11) (flog pi_11)))"

definition christoffersen_test :: "(real \<Rightarrow> real) \<Rightarrow> int list \<Rightarrow> christoffersen_report" where
  "christoffersen_test cdf x =
     (if length x < 2 then
        \<lparr> n00_of = PyFloat NaN, n01_of = PyFloat NaN, n10_of = PyFloat NaN,
          n11_of = PyFloat NaN, lr_ind = NaN, ind_p_value = NaN \<rparr>
      else
        let n00 = count_tr 0 0 x;
            n01 = count_tr 0 1 x;
            n10 = count_tr 1 0 x;
            n11 = count_tr 1 1 x
        in
          if n01 + n00 = 0 \<or> n10 + n11 = 0 \<or> n01 + n11 = 0 then
            \<lparr> n00_of = PyInt (int n00), n01_of = PyInt (int n01), n10_of = PyInt (int n10),
              n11_of = PyInt (int n11), lr_ind = NaN, ind_p_value = NaN \<rparr>
          else
            let lr = fmul (Fin (- 2)) (fsub (logL0 n00 n01 n10 n11) (logL1 n00 n01 n10 n11));
                p = fsub (Fin 1) (fcdf cdf lr)
            in \<lparr> n00_of = PyInt (int n00), n01_of = PyInt (int n01), n10_of = PyInt (int n10),
                 n11_of = PyInt (int n11), lr_ind = lr, ind_p_value = p \<rparr>)"

section \<open>models.py\<close>

text \<open>
  \<open>estimate_arima(series, max_p, max_q, d, criterion, label)\<close>. \<open>ARIMA(series,
  order=(p, d, q)).fit()\<close> is the parameter \<open>fit\<close>, \<open>None\<close> when it raises (the
  \<open>except Exception: continue\<close> of the loop); \<open>aic\<close> reads the criterion of a fitted
  model. The argument \<open>criterion\<close> is never read by the source. The loop state is
  \<open>(best_aic, best_order, best_model)\<close>; the function prints a line from the final state
  and returns \<open>best_model\<close>.
\<close>

type_synonym 'm search_state = "pyfloat \<times> (nat \<times> int \<times> nat) option \<times> 'm option"

definition grid :: "int \<Rightarrow> int \<Rightarrow> (nat \<times> nat) list" where
  "grid max_p max_q =
     concat (map (\<lambda>p. map (\<lambda>q. (p, q)) [0 ..< nat (max_q + 1)]) [0 ..< nat (max_p + 1)])"

definition arima_step ::
  "(nat \<Rightarrow> int \<Rightarrow> nat \<Rightarrow> 'm option) \<Rightarrow> ('m \<Rightarrow> pyfloat) \<Rightarrow> int \<Rightarrow>
   'm search_state \<Rightarrow> nat \<times> nat \<Rightarrow> 'm search_state" where
  "arima_step fit aic d st pq =
     (case st of (best_aic, best_order, best_model) \<Rightarrow>
        (case pq of (p, q) \<Rightarrow>
           (case fit p d q of
              None \<Rightarrow> st
            | Some model \<Rightarrow>
                if flt (aic model) best_aic then (aic model, Some (p, d, q), Some model)
                else st)))"

text \<open>The fit attempted at a point of the grid.\<close>

definition attempt :: "(nat \<Rightarrow> int \<Rightarrow> nat \<Rightarrow> 'm option) \<Rightarrow> int \<Rightarrow> nat \<times> nat \<Rightarrow> 'm option" where
  "attempt fit d pq = (case pq of (p, q) \<Rightarrow> fit p d q)"

definition arima_search ::
  "(nat \<Rightarrow> int \<Rightarrow> nat \<Rightarrow> 'm option) \<Rightarrow> ('m \<Rightarrow> pyfloat) \<Rightarrow> int \<Rightarrow> int \<Rightarrow> int \<Rightarrow>
   'm search_state" where
  "arima_search fit aic max_p max_q d =
     foldl (arima_step fit aic d) (PInf, None, None) (grid max_p max_q)"

definition estimate_arima ::
  "(nat \<Rightarrow> int \<Rightarrow> nat \<Rightarrow> 'm option) \<Rightarrow> ('m \<Rightarrow> pyfloat) \<Rightarrow> int \<Rightarrow> int \<Rightarrow> int \<Rightarrow>
   error + 'm option" where
  "estimate_arima fit aic max_p max_q d =
     (case arima_search fit aic max_p max_q d of
        (best_aic, best_order, best_model) \<Rightarrow> Inr best_model)"

section \<open>tests.py\<close>

text \<open>
  \<open>arch_lm_test(series, name, lags)\<close>. \<open>het_arch\<close> of statsmodels is a parameter; an
  exception it raises propagates. The result pairs what the function prints (the
  labelled statistics, in order) with the tuple it returns, a list of its components.
\<close>

record arch_lm_result =
  printed :: "(string \<times> pyfloat) list"
  returned :: "pyfloat list"

definition arch_lm_test ::
  "(pyfloat list \<Rightarrow> int \<Rightarrow> error + pyfloat \<times> pyfloat \<times> pyfloat \<times> pyfloat) \<Rightarrow>
   pyfloat list \<Rightarrow> int \<Rightarrow> error + arch_lm_result" where
  "arch_lm_test het_arch series lags =
     (case het_arch series lags of
        Inl e \<Rightarrow> Inl e
      | Inr (lm_stat, lm_pval, f_stat, f_pval) \<Rightarrow>
          Inr \<lparr> printed = [(''LM Statistic'', lm_stat), (''p-value (LM)'', lm_pval),
                           (''F Statistic'', f_stat), (''p-value (F)'', f_pval)],
                returned = [lm_stat, lm_pval] \<rparr>)"

section \<open>Library functions and sample inputs\<close>

text \<open>
  The cumulative distribution function of the chi-square distribution with one degree of
  freedom, \<open>chi2.cdf(t, 1)\<close> of SciPy: \<open>erf (sqrt (t / 2))\<close> for positive \<open>t\<close>, with the
  error function given by its power series.
\<close>

definition erf_coeff :: "real \<Rightarrow> nat \<Rightarrow> real" where
  "erf_coeff z k = z ^ (2 * k + 1) / (fact k * real (2 * k + 1))"

definition erf :: "real \<Rightarrow> real" where
  "erf z = 2 / sqrt pi * (\<Sum>k. (- 1) ^ k * erf_coeff z k)"

definition chi2_cdf1 :: "real \<Rightarrow> real" where
  "chi2_cdf1 t = (if t \<le> 0 then 0 else erf (sqrt (t / 2)))"

text \<open>
  Student's t distribution with one degree of freedom (the Cauchy distribution): its
  quantile function and density, as \<open>student_t.ppf(alpha, 1)\<close> and \<open>student_t.pdf(q, 1)\<close>.
  They are used at \<open>dof = 1\<close> only.
\<close>

definition t1_ppf :: "real \<Rightarrow> real \<Rightarrow> pyfloat" where
  "t1_ppf a dof = Fin (tan (pi * (a - 1 / 2)))"

definition t1_pdf :: "pyfloat \<Rightarrow> real \<Rightarrow> pyfloat" where
  "t1_pdf q dof = (case q of Fin t \<Rightarrow> Fin (1 / (pi * (1 + t\<^sup>2))) | NaN \<Rightarrow> NaN | _ \<Rightarrow> Fin 0)"

text \<open>The quantile function of the uniform distribution on \<open>[-1/2, 1/2]\<close>.\<close>

definition uniform_ppf :: "real \<Rightarrow> pyfloat" where
  "uniform_ppf a = (if 0 \<le> a \<and> a \<le> 1 then Fin (a - 1 / 2) else NaN)"

text \<open>A fit that raises for every order, and fits whose criterion is read off a table.\<close>

definition fit_fails :: "nat \<Rightarrow> int \<Rightarrow> nat \<Rightarrow> real option" where
  "fit_fails p d q = None"


definition aic_of :: "real \<Rightarrow> pyfloat" where
  "aic_of m = Fin m"

text \<open>A \<open>het_arch\<close> that returns the four statistics 1, 2, 3, 4.\<close>

definition het_arch_1234 ::
  "pyfloat list \<Rightarrow> int \<Rightarrow> error + pyfloat \<times> pyfloat \<times> pyfloat \<times> pyfloat" where
  "het_arch_1234 series lags = Inr (Fin 1, Fin 2, Fin 3, Fin 4)"

text \<open>A return series and a VaR series with any given exceedance sequence.\<close>

definition returns_of :: "nat list \<Rightarrow> pyfloat list" where
  "returns_of exs = map (\<lambda>e. if e = 0 then Fin 0 else Fin (- 1)) exs"

definition var_of :: "nat list \<Rightarrow> pyfloat list" where
  "var_of exs = map (\<lambda>e. Fin (- 1 / 2)) exs"

text \<open>The binary64 value of the literal \<open>0.05\<close>, \<open>0x1.999999999999ap-5\<close>.\<close>

definition alpha05 :: real where
  "alpha05 = 3602879701896397 / 2 ^ 56"

text \<open>An exceedance sequence of \<open>20 * k\<close> observations with one violation in every twenty.\<close>

fun every_20th :: "nat \<Rightarrow> nat list" where
  "every_20th 0 = []"
| "every_20th (Suc k) = 1 # replicate 19 0 @ every_20th k"

section \<open>Kupiec backtest\<close>

lemma exceptions_length:
  "length returns = length var_series \<Longrightarrow> length (exceptions returns var_series) = length returns"
  by (simp add: exceptions_def)

lemma kupiec_lr_finite:
  assumes a: "0 < alpha" "alpha < 1" and x: "0 < x" "x < n"
  shows "fmul (Fin (- 2))
           (fsub (flog (fmul (fpow (Fin (1 - alpha)) (n - x)) (fpow (Fin alpha) x)))
                 (flog (fmul (fpow (fsub (Fin 1) (fdiv (Fin (real x)) (Fin (real n)))) (n - x))
                             (fpow (fdiv (Fin (real x)) (Fin (real n))) x))))
         = Fin (- 2 * (real (n - x) * ln (1 - alpha) + real x * ln alpha
                       - real (n - x) * ln (1 - real x / real n) - real x * ln (real x / real n)))"
proof -
  have n0: "real n \<noteq> 0" using x by simp
  have p1: "0 < real x / real n" using x by simp
  have p2: "0 < 1 - real x / real n" using x by simp
  have a2: "0 < 1 - alpha" using a by simp
  have e1: "ln ((1 - alpha) ^ (n - x) * alpha ^ x) = real (n - x) * ln (1 - alpha) + real x * ln alpha"
    using a a2 by (simp add: ln_mult_pos ln_realpow)
  have e2: "ln ((1 - real x / real n) ^ (n - x) * (real x / real n) ^ x)
            = real (n - x) * ln (1 - real x / real n) + real x * ln (real x / real n)"
    using p1 p2 by (simp add: ln_mult_pos ln_realpow)
  have pos1: "0 < (1 - alpha) ^ (n - x) * alpha ^ x" using a a2 by simp
  have pos2: "0 < (1 - real x / real n) ^ (n - x) * (real x / real n) ^ x" using p1 p2 by simp
  show ?thesis
    using n0 pos1 pos2 e1 e2 by (simp add: fsub_def algebra_simps)
qed

text \<open>
  Claim C1. For aligned series with \<open>n > 0\<close> observations of which \<open>x\<close> are violations, when
  \<open>x = 0\<close> or \<open>x = n\<close> the backtest raises nothing and reports \<open>nan\<close> for both the
  likelihood-ratio statistic and the p-value.
\<close>

theorem kupiec_degenerate_nan:
  assumes "length returns = length var_series"
    and "0 < length (exceptions returns var_series)"
    and "sum_list (exceptions returns var_series) = 0 \<or>
         sum_list (exceptions returns var_series) = length (exceptions returns var_series)"
  shows "\<exists>r. backtest_var cdf returns var_series alpha = Inr r \<and>
             kupiec_lr r = NaN \<and> p_value r = NaN"
  using assms by (auto simp: backtest_var_def Let_def)

theorem kupiec_degenerate_nan_witness:
  "length (returns_of [0, 0, 0]) = length (var_of [0, 0, 0]) \<and>
   0 < length (exceptions (returns_of [0, 0, 0]) (var_of [0, 0, 0])) \<and>
   sum_list (exceptions (returns_of [0, 0, 0]) (var_of [0, 0, 0])) = 0 \<and>
   (\<exists>r. backtest_var chi2_cdf1 (returns_of [0, 0, 0]) (var_of [0, 0, 0]) (1 / 20) = Inr r \<and>
        kupiec_lr r = NaN \<and> p_value r = NaN)"
  using kupiec_degenerate_nan [of "returns_of [0, 0, 0]" "var_of [0, 0, 0]" chi2_cdf1 "1 / 20"]
  by (simp add: returns_of_def var_of_def exceptions_def)

text \<open>
  In exact arithmetic, for aligned series with \<open>0 < x < n\<close> violations and \<open>alpha\<close> in
  \<open>(0, 1)\<close>, the reported statistic is \<open>-2 * ((n-x) * log (1-alpha) + x * log alpha - (n-x) * log (1-x/n)
  - x * log (x/n))\<close>, the logarithm of each product of powers being the sum of the
  logarithms, and the p-value is one minus the chi-square distribution function at it.
\<close>

lemma kupiec_statistic_formula_exact:
  assumes "0 < alpha" and "alpha < 1"
    and "length returns = length var_series"
    and "n = length (exceptions returns var_series)"
    and "x = sum_list (exceptions returns var_series)"
    and "0 < x" and "x < n"
    and "LR = - 2 * (real (n - x) * ln (1 - alpha) + real x * ln alpha
                     - real (n - x) * ln (1 - real x / real n) - real x * ln (real x / real n))"
  shows "\<exists>r. backtest_var cdf returns var_series alpha = Inr r \<and>
             kupiec_lr r = Fin LR \<and> p_value r = Fin (1 - cdf LR)"
proof -
  have lr: "fmul (Fin (- 2))
           (fsub (flog (fmul (fpow (Fin (1 - alpha)) (n - x)) (fpow (Fin alpha) x)))
                 (flog (fmul (fpow (fsub (Fin 1) (fdiv (Fin (real x)) (Fin (real n)))) (n - x))
                             (fpow (fdiv (Fin (real x)) (Fin (real n))) x)))) = Fin LR"
    unfolding assms(8) by (rule kupiec_lr_finite [OF assms(1,2,6,7)])
  have ne: "\<not> (x = 0 \<or> x = n)" using assms(6,7) by simp
  have "backtest_var cdf returns var_series alpha =
        Inr \<lparr> alpha_of = alpha, n_of = n, violations = int x,
              violation_ratio = fround2 (fdiv (fdiv (Fin (real x)) (Fin (real n))) (Fin alpha)),
              kupiec_lr = Fin LR, p_value = fsub (Fin 1) (fcdf cdf (Fin LR)) \<rparr>"
    unfolding backtest_var_def Let_def assms(4)[symmetric] assms(5)[symmetric]
    using assms(3) ne lr by simp
  then show ?thesis by (simp add: fsub_def)
qed

section \<open>Value at risk\<close>

lemma compute_var_map:
  "compute_var variance ppf alpha = map (\<lambda>v. fmul (ppf alpha) (fsqrt v)) variance"
  by (simp add: compute_var_def)

lemma compute_var_positive:
  assumes "\<forall>v \<in> set variance. 0 < v"
  shows "compute_var (map Fin variance) ppf alpha
           = map (\<lambda>v. fmul (ppf alpha) (Fin (sqrt v))) variance"
proof -
  have "fsqrt (Fin v) = Fin (sqrt v)" if "v \<in> set variance" for v
    using assms that by (simp add: not_less less_imp_le)
  then show ?thesis by (simp add: compute_var_map)
qed

text \<open>
  Claim C7, as stated, on the one-element volatility series \<open>[4]\<close> with the uniform
  quantile at \<open>alpha = 0.05\<close>: the quantile is \<open>-0.45\<close>, quantile times sigma is \<open>-1.8\<close>,
  and \<open>compute_var\<close> returns \<open>-0.9\<close>, the quantile times the square root of its argument.
\<close>

theorem compute_var_on_volatility:
  "compute_var [Fin 4] uniform_ppf (1 / 20) = [Fin (- 9 / 10)] \<and>
   map (fmul (uniform_ppf (1 / 20))) [Fin 4] = [Fin (- 9 / 5)] \<and>
   compute_var [Fin 4] uniform_ppf (1 / 20) \<noteq> map (fmul (uniform_ppf (1 / 20))) [Fin 4]"
  by (simp add: compute_var_map uniform_ppf_def)

text \<open>
  Claim C7, amended. \<open>compute_var\<close> is given the conditional variance. For a variance
  series with \<open>v_t > 0\<close> the value at risk is \<open>quantile(alpha) * sqrt v_t\<close> at every \<open>t\<close>,
  that is \<open>quantile(alpha) * sigma_t\<close> for the volatility \<open>sigma_t = sqrt v_t\<close>; and for a
  quantile function that is finite and non-decreasing on \<open>(0, 1)\<close> it does not increase
  as \<open>alpha\<close> decreases over \<open>(0, 1/2)\<close>.
\<close>

theorem var_from_variance_and_monotone:
  assumes pos: "\<forall>v \<in> set variance. 0 < v"
  shows "compute_var (map Fin variance) ppf alpha
           = map (\<lambda>v. fmul (ppf alpha) (Fin (sqrt v))) variance \<and>
         ((\<forall>a. 0 < a \<and> a < 1 \<longrightarrow> ppf a = Fin (Q a)) \<and>
          (\<forall>a b. 0 < a \<and> a \<le> b \<and> b < 1 \<longrightarrow> Q a \<le> Q b) \<and>
          0 < a1 \<and> a1 \<le> a2 \<and> a2 < 1 / 2 \<longrightarrow>
          list_all2 (\<lambda>v1 v2. \<exists>r1 r2. v1 = Fin r1 \<and> v2 = Fin r2 \<and> r1 \<le> r2)
            (compute_var (map Fin variance) ppf a1)
            (compute_var (map Fin variance) ppf a2))"
proof (intro conjI impI)
  show "compute_var (map Fin variance) ppf alpha
           = map (\<lambda>v. fmul (ppf alpha) (Fin (sqrt v))) variance"
    by (rule compute_var_positive [OF pos])
next
  assume h: "(\<forall>a. 0 < a \<and> a < 1 \<longrightarrow> ppf a = Fin (Q a)) \<and>
          (\<forall>a b. 0 < a \<and> a \<le> b \<and> b < 1 \<longrightarrow> Q a \<le> Q b) \<and>
          0 < a1 \<and> a1 \<le> a2 \<and> a2 < 1 / 2"
  then have q1: "ppf a1 = Fin (Q a1)" and q2: "ppf a2 = Fin (Q a2)" by auto
  have le: "Q a1 \<le> Q a2" using h by auto
  have "Q a1 * sqrt v \<le> Q a2 * sqrt v" if "v \<in> set variance" for v
  proof -
    have "0 \<le> sqrt v" using pos that by (simp add: less_imp_le)
    with le show ?thesis by (rule mult_right_mono)
  qed
  then show "list_all2 (\<lambda>v1 v2. \<exists>r1 r2. v1 = Fin r1 \<and> v2 = Fin r2 \<and> r1 \<le> r2)
           (compute_var (map Fin variance) ppf a1)
           (compute_var (map Fin variance) ppf a2)"
    by (simp add: compute_var_positive [OF pos] q1 q2 list_all2_conv_all_nth)
qed

theorem var_from_variance_and_monotone_witness:
  "(0::real) < 1 \<and> (0::real) < 4 \<and>
   compute_var [Fin 1, Fin 4] uniform_ppf (1 / 20) = [Fin (- 9 / 20), Fin (- 9 / 10)] \<and>
   uniform_ppf (1 / 100) = Fin (1 / 100 - 1 / 2) \<and> uniform_ppf (1 / 20) = Fin (1 / 20 - 1 / 2) \<and>
   (1 / 100 - 1 / 2 :: real) \<le> 1 / 20 - 1 / 2 \<and>
   list_all2 (\<lambda>v1 v2. \<exists>r1 r2. v1 = Fin r1 \<and> v2 = Fin r2 \<and> r1 \<le> r2)
     (compute_var [Fin 1, Fin 4] uniform_ppf (1 / 100))
     (compute_var [Fin 1, Fin 4] uniform_ppf (1 / 20))"
proof -
  have pos: "\<forall>v \<in> set [1, 4 :: real]. 0 < v" by simp
  have m4: "map Fin [1, 4 :: real] = [Fin 1, Fin 4]" by simp
  note t = var_from_variance_and_monotone [OF pos, of uniform_ppf "1 / 20" "\<lambda>a. a - 1 / 2" "1 / 100" "1 / 20",
      unfolded m4]
  have s4: "sqrt 4 = (2::real)"
    using real_sqrt_abs [of 2] by simp
  have u: "uniform_ppf (1 / 100) = Fin (1 / 100 - 1 / 2)" "uniform_ppf (1 / 20) = Fin (1 / 20 - 1 / 2)"
    by (simp_all add: uniform_ppf_def)
  have "compute_var [Fin 1, Fin 4] uniform_ppf (1 / 20)
          = map (\<lambda>v. fmul (uniform_ppf (1 / 20)) (Fin (sqrt v))) [1, 4]"
    by (rule t [THEN conjunct1])
  then have v: "compute_var [Fin 1, Fin 4] uniform_ppf (1 / 20) = [Fin (- 9 / 20), Fin (- 9 / 10)]"
    by (simp add: u s4)
  have m: "list_all2 (\<lambda>v1 v2. \<exists>r1 r2. v1 = Fin r1 \<and> v2 = Fin r2 \<and> r1 \<le> r2)
     (compute_var [Fin 1, Fin 4] uniform_ppf (1 / 100))
     (compute_var [Fin 1, Fin 4] uniform_ppf (1 / 20))"
    by (rule t [THEN conjunct2, rule_format]) (simp add: uniform_ppf_def)
  show ?thesis using v u m by simp
qed

text \<open>
  Claim C10. \<open>compute_var\<close> takes the square root of its first argument, elementwise,
  before multiplying by the quantile: given a volatility \<open>s\<close> where a variance is
  expected it yields \<open>quantile(alpha) * sqrt s\<close>, which differs from \<open>quantile(alpha) * s\<close>
  whenever the quantile is non-zero and \<open>s\<close> is positive and not one.
\<close>

theorem compute_var_takes_variance:
  "compute_var v ppf alpha = map (\<lambda>x. fmul (ppf alpha) (fsqrt x)) v \<and>
   (ppf alpha = Fin q \<and> q \<noteq> 0 \<and> 0 < s \<and> s \<noteq> 1 \<longrightarrow>
      compute_var [Fin s] ppf alpha = [Fin (q * sqrt s)] \<and> q * sqrt s \<noteq> q * s)"
proof (intro conjI impI)
  show "compute_var v ppf alpha = map (\<lambda>x. fmul (ppf alpha) (fsqrt x)) v"
    by (rule compute_var_map)
next
  assume h: "ppf alpha = Fin q \<and> q \<noteq> 0 \<and> 0 < s \<and> s \<noteq> 1"
  then show "compute_var [Fin s] ppf alpha = [Fin (q * sqrt s)]"
    by (simp add: compute_var_map)
next
  assume h: "ppf alpha = Fin q \<and> q \<noteq> 0 \<and> 0 < s \<and> s \<noteq> 1"
  have "sqrt s \<noteq> s"
  proof
    assume e: "sqrt s = s"
    have "sqrt s * sqrt s = s" using h by simp
    then have "s * s = s" using e by simp
    then have "s * (s - 1) = 0" by (simp add: algebra_simps)
    then show False using h by simp
  qed
  then show "q * sqrt s \<noteq> q * s" using h by simp
qed

theorem compute_var_takes_variance_witness:
  "uniform_ppf (1 / 20) = Fin (- 9 / 20) \<and> (- 9 / 20 :: real) \<noteq> 0 \<and> (0::real) < 4 \<and> (4::real) \<noteq> 1 \<and>
   compute_var [Fin 4] uniform_ppf (1 / 20) = [Fin (- 9 / 10)] \<and>
   (- 9 / 10 :: real) \<noteq> - 9 / 20 * 4"
  using compute_var_takes_variance [of "[Fin 4]" uniform_ppf "1 / 20" "- 9 / 20" 4]
  by (simp add: uniform_ppf_def)

section \<open>Expected shortfall\<close>

lemma compute_es_values:
  "compute_es ppf pdf sigma dof alpha =
     Inr \<lparr> es_level = py_int ((1 - alpha) * 100),
           es_values = map (fmul (fdiv (fmul (fneg (pdf (ppf alpha dof) dof))
                                             (fadd (Fin dof) (fpow (ppf alpha dof) 2)))
                                       (Fin ((dof - 1) * alpha)))) sigma \<rparr>"
  by (simp add: compute_es_def Let_def)

text \<open>
  Claim C4, as stated, at \<open>dof = 1\<close>, \<open>alpha = 1/4\<close> and the one-element series \<open>[1]\<close>: the
  quantile is \<open>-1\<close>, the density \<open>1 / (2 * pi)\<close>, the divisor zero, and the function
  returns the series \<open>[-inf]\<close> under the name \<open>ES_75\<close>; no error is raised.
\<close>

theorem compute_es_dof_one_returns:
  "compute_es t1_ppf t1_pdf [Fin 1] 1 (1 / 4) = Inr \<lparr> es_level = 75, es_values = [NInf] \<rparr> \<and>
   compute_es t1_ppf t1_pdf [Fin 1] 1 (1 / 4) \<noteq> Inl InvalidParameterError"
proof -
  have "pi * (1 / 4 - 1 / 2) = - (pi / 4)"
    by (simp add: algebra_simps)
  then have "tan (pi * (1 / 4 - 1 / 2)) = - tan (pi / 4)"
    by (simp only: tan_minus)
  then have q: "t1_ppf (1 / 4) 1 = Fin (- 1)"
    by (simp only: t1_ppf_def tan_45)
  have f: "t1_pdf (Fin (- 1)) 1 = Fin (1 / (2 * pi))"
    by (simp add: t1_pdf_def)
  show ?thesis
    by (simp add: compute_es_values q f inf_signed_def py_int_def)
qed

text \<open>
  Claim C4, amended. For \<open>dof \<le> 1\<close> and \<open>alpha\<close> in \<open>(0, 1)\<close> the function raises nothing
  and returns a series as long as \<open>sigma\<close>. Where the quantile \<open>q\<close> and the density \<open>f\<close> at
  it are finite: for \<open>dof < 1\<close> the entry at a finite \<open>sigma_t\<close> is
  \<open>- f * (dof + q^2) / ((dof - 1) * alpha) * sigma_t\<close>; for \<open>dof = 1\<close> and \<open>f > 0\<close> the
  entry at a finite positive \<open>sigma_t\<close> is minus infinity.
\<close>

theorem compute_es_no_validation:
  assumes "dof \<le> 1" and "0 < alpha" and "alpha < 1"
  shows "\<exists>es. compute_es ppf pdf sigma dof alpha = Inr es \<and>
           length (es_values es) = length sigma \<and>
           (\<forall>q f. ppf alpha dof = Fin q \<and> pdf (Fin q) dof = Fin f \<longrightarrow>
              (\<forall>t s. t < length sigma \<and> sigma ! t = Fin s \<longrightarrow>
                 (dof < 1 \<longrightarrow>
                    es_values es ! t = Fin (- f * (dof + q\<^sup>2) / ((dof - 1) * alpha) * s)) \<and>
                 (dof = 1 \<and> 0 < f \<and> 0 < s \<longrightarrow> es_values es ! t = NInf)))"
proof -
  have pos: "0 < 1 + q\<^sup>2" for q :: real
    by (simp add: add_pos_nonneg)
  have prod: "0 < f * (1 + q\<^sup>2)" if "0 < f" for f q :: real
    using that pos [of q] by (rule mult_pos_pos)
  have neg: "\<not> f * (1 + q\<^sup>2) < 0" if "0 < f" for f q :: real
    using prod [OF that, of q] by simp
  have nz: "1 + q\<^sup>2 \<noteq> 0" for q :: real
    using pos [of q] by simp
  show ?thesis
    using assms by (auto simp: compute_es_values inf_signed_def neg nz)
qed

theorem compute_es_no_validation_witness:
  "(1::real) \<le> 1 \<and> (0::real) < 1 / 4 \<and> (1 / 4 :: real) < 1 \<and>
   (\<exists>es. compute_es t1_ppf t1_pdf [Fin 1] 1 (1 / 4) = Inr es \<and>
         length (es_values es) = length [Fin 1] \<and>
         t1_ppf (1 / 4) 1 = Fin (- 1) \<and> t1_pdf (Fin (- 1)) 1 = Fin (1 / (2 * pi)) \<and>
         es_values es ! 0 = NInf)"
proof -
  have "pi * (1 / 4 - 1 / 2) = - (pi / 4)"
    by (simp add: algebra_simps)
  then have "tan (pi * (1 / 4 - 1 / 2)) = - tan (pi / 4)"
    by (simp only: tan_minus)
  then have q: "t1_ppf (1 / 4) 1 = Fin (- 1)"
    by (simp only: t1_ppf_def tan_45)
  have f: "t1_pdf (Fin (- 1)) 1 = Fin (1 / (2 * pi))"
    by (simp add: t1_pdf_def)
  obtain es where es: "compute_es t1_ppf t1_pdf [Fin 1] 1 (1 / 4) = Inr es"
      "length (es_values es) = length [Fin (1::real)]"
      "\<forall>q f. t1_ppf (1 / 4) 1 = Fin q \<and> t1_pdf (Fin q) 1 = Fin f \<longrightarrow>
              (\<forall>t s. t < length [Fin (1::real)] \<and> [Fin 1] ! t = Fin s \<longrightarrow>
                 ((1::real) < 1 \<longrightarrow>
                    es_values es ! t = Fin (- f * (1 + q\<^sup>2) / ((1 - 1) * (1 / 4)) * s)) \<and>
                 ((1::real) = 1 \<and> 0 < f \<and> 0 < s \<longrightarrow> es_values es ! t = NInf))"
    using compute_es_no_validation [of 1 "1 / 4" t1_ppf t1_pdf "[Fin 1]"] by auto
  from es(3) q f have "es_values es ! 0 = NInf" by simp
  with es(1,2) q f show ?thesis by simp
qed

section \<open>ARCH-LM test\<close>

text \<open>
  Claim C9, as stated, at a \<open>het_arch\<close> returning the statistics 1, 2, 3, 4: the returned
  tuple is \<open>(1, 2)\<close>, and neither the F statistic 3 nor its p-value 4 is in it.
\<close>

theorem arch_lm_returns_no_f_pair:
  "map_sum id returned (arch_lm_test het_arch_1234 [Fin 0, Fin 1] 12) = Inr [Fin 1, Fin 2] \<and>
   Fin 3 \<notin> set [Fin 1, Fin 2 :: pyfloat] \<and> Fin 4 \<notin> set [Fin 1, Fin 2 :: pyfloat]"
  by (simp add: arch_lm_test_def het_arch_1234_def)

text \<open>
  Claim C9, amended. Where \<open>het_arch\<close> yields the four statistics, \<open>arch_lm_test\<close> prints
  the LM pair and the F pair and returns the LM pair alone, as a tuple of two.
\<close>

theorem arch_lm_returns_lm_pair:
  assumes "het_arch series lags = Inr (lm_stat, lm_pval, f_stat, f_pval)"
  shows "\<exists>res. arch_lm_test het_arch series lags = Inr res \<and>
           returned res = [lm_stat, lm_pval] \<and>
           map snd (printed res) = [lm_stat, lm_pval, f_stat, f_pval]"
  using assms by (simp add: arch_lm_test_def)

theorem arch_lm_returns_lm_pair_witness:
  "het_arch_1234 [Fin 0, Fin 1] 12 = Inr (Fin 1, Fin 2, Fin 3, Fin 4) \<and>
   (\<exists>res. arch_lm_test het_arch_1234 [Fin 0, Fin 1] 12 = Inr res \<and>
           returned res = [Fin 1, Fin 2] \<and>
           map snd (printed res) = [Fin 1, Fin 2, Fin 3, Fin 4])"
  using arch_lm_returns_lm_pair [of het_arch_1234 "[Fin 0, Fin 1]" 12 "Fin 1" "Fin 2" "Fin 3" "Fin 4"]
  by (simp add: het_arch_1234_def)

section \<open>ARIMA order search\<close>

lemma grid_product:
  "grid max_p max_q = List.product [0 ..< nat (max_p + 1)] [0 ..< nat (max_q + 1)]"
  by (simp add: grid_def product_concat_map)


lemma grid_set: "set (grid max_p max_q) = {(p, q). int p \<le> max_p \<and> int q \<le> max_q}"
  by (auto simp: grid_product)


lemma arima_step_attempt:
  "arima_step fit aic d (ba, bo, bm) pq =
     (case attempt fit d pq of
        None \<Rightarrow> (ba, bo, bm)
      | Some m \<Rightarrow> if flt (aic m) ba then (aic m, Some (fst pq, d, snd pq), Some m)
                  else (ba, bo, bm))"
  by (simp add: arima_step_def attempt_def split: prod.splits option.splits)

lemma arima_fold_all_fail:
  assumes "\<forall>pq \<in> set ps. attempt fit d pq = None"
  shows "foldl (arima_step fit aic d) st ps = st"
  using assms
proof (induction ps arbitrary: st)
  case Nil
  then show ?case by simp
next
  case (Cons pq ps)
  obtain ba bo bm where st: "st = (ba, bo, bm)" by (cases st)
  have "arima_step fit aic d st pq = st"
    using Cons.prems by (simp add: st arima_step_attempt)
  then show ?case using Cons by simp
qed




text \<open>
  Claim C6, as stated, on the default grid with a fit that raises for every order: the
  function returns \<open>None\<close> and raises nothing.
\<close>

theorem estimate_arima_all_fail_example:
  "estimate_arima fit_fails aic_of 5 5 0 = Inr None \<and>
   estimate_arima fit_fails aic_of 5 5 0 \<noteq> Inl NoConvergentModelError"
proof -
  have "\<forall>pq \<in> set (grid 5 5). attempt fit_fails 0 pq = None"
    by (simp add: attempt_def fit_fails_def split: prod.splits)
  then have "arima_search fit_fails aic_of 5 5 0 = (PInf, None, None)"
    unfolding arima_search_def by (rule arima_fold_all_fail)
  then show ?thesis by (simp add: estimate_arima_def)
qed

text \<open>
  Claim C6, amended. When the fit raises for every order of the grid, the function
  raises nothing and returns \<open>None\<close> in place of a model; the best criterion is left at
  plus infinity and the best order at \<open>None\<close>.
\<close>

theorem estimate_arima_all_fail_none:
  assumes "\<forall>p q. int p \<le> max_p \<and> int q \<le> max_q \<longrightarrow> fit p d q = None"
  shows "estimate_arima fit aic max_p max_q d = Inr None \<and>
         arima_search fit aic max_p max_q d = (PInf, None, None)"
proof -
  have "\<forall>pq \<in> set (grid max_p max_q). attempt fit d pq = None"
    using assms by (auto simp: grid_set attempt_def)
  then have "arima_search fit aic max_p max_q d = (PInf, None, None)"
    unfolding arima_search_def by (rule arima_fold_all_fail)
  then show ?thesis by (simp add: estimate_arima_def)
qed

theorem estimate_arima_all_fail_none_witness:
  "fit_fails 0 1 0 = None \<and> fit_fails 2 1 3 = None \<and>
   estimate_arima fit_fails aic_of 2 3 1 = Inr None \<and>
   arima_search fit_fails aic_of 2 3 1 = (PInf, None, None)"
  using estimate_arima_all_fail_none [where max_p = 2 and max_q = 3 and fit = fit_fails and d = 1
      and aic = aic_of]
  by (simp add: fit_fails_def)




section \<open>Christoffersen independence test\<close>

lemma counts_example:
  "count_tr 0 0 [0, 0, 0, 1, 0, 0, 1, 0, 0, 0] = 5"
  "count_tr 0 1 [0, 0, 0, 1, 0, 0, 1, 0, 0, 0] = 2"
  "count_tr 1 0 [0, 0, 0, 1, 0, 0, 1, 0, 0, 0] = 2"
  "count_tr 1 1 [0, 0, 0, 1, 0, 0, 1, 0, 0, 0] = 0"
  by (simp_all add: count_tr_def transitions_def)

text \<open>
  Claim C2 at the exceedance sequence \<open>[0,0,0,1,0,0,1,0,0,0]\<close>. The counts are 5, 2, 2
  and 0, so none of the three sums is zero and the guard is passed; \<open>pi_11\<close> is \<open>0/2\<close>,
  the term \<open>n11 * log pi_11\<close> is zero times minus infinity, and the statistic and the
  p-value come out as \<open>nan\<close>.
\<close>

theorem christoffersen_nan_without_zero_sum:
  "christoffersen_test chi2_cdf1 [0, 0, 0, 1, 0, 0, 1, 0, 0, 0] =
     \<lparr> n00_of = PyInt 5, n01_of = PyInt 2, n10_of = PyInt 2, n11_of = PyInt 0,
       lr_ind = NaN, ind_p_value = NaN \<rparr> \<and>
   count_tr 0 0 [0, 0, 0, 1, 0, 0, 1, 0, 0, 0] + count_tr 0 1 [0, 0, 0, 1, 0, 0, 1, 0, 0, 0] = 7 \<and>
   count_tr 1 0 [0, 0, 0, 1, 0, 0, 1, 0, 0, 0] + count_tr 1 1 [0, 0, 0, 1, 0, 0, 1, 0, 0, 0] = 2 \<and>
   count_tr 0 1 [0, 0, 0, 1, 0, 0, 1, 0, 0, 0] + count_tr 1 1 [0, 0, 0, 1, 0, 0, 1, 0, 0, 0] = 2"
  by (simp add: christoffersen_test_def counts_example logL0_def logL1_def fnat_def fsub_def
      inf_signed_def Let_def)


lemma christoffersen_counts_returned:
  assumes "2 \<le> length x"
  shows "n00_of (christoffersen_test cdf x) = PyInt (int (count_tr 0 0 x)) \<and>
         n01_of (christoffersen_test cdf x) = PyInt (int (count_tr 0 1 x)) \<and>
         n10_of (christoffersen_test cdf x) = PyInt (int (count_tr 1 0 x)) \<and>
         n11_of (christoffersen_test cdf x) = PyInt (int (count_tr 1 1 x))"
  using assms by (simp add: christoffersen_test_def Let_def)


lemma real_sum_nonzero:
  assumes "0 < a + b"
  shows "real a + real b \<noteq> 0"
  using assms by (simp add: add_nonneg_eq_0_iff)

lemma fsub_one_ratio:
  assumes "0 < a + b"
  shows "fsub (Fin 1) (fdiv (fnat b) (fnat (a + b))) = Fin (real a / real (a + b))"
proof -
  have nz: "real a + real b \<noteq> 0" by (rule real_sum_nonzero [OF assms])
  then have "1 - real b / (real a + real b) = real a / (real a + real b)"
    by (simp add: field_simps)
  then show ?thesis using nz by (simp add: fnat_def fsub_def)
qed

lemma fdiv_ratio:
  assumes "0 < N"
  shows "fdiv (fnat b) (fnat N) = Fin (real b / real N)"
  using assms by (simp add: fnat_def)

lemma weighted_log:
  assumes "0 < N"
  shows "fmul (fnat k) (flog (Fin (real a / real N))) =
           (if a = 0 then (if k = 0 then NaN else NInf)
            else Fin (real k * ln (real a / real N)))"
proof (cases "a = 0")
  case True
  then show ?thesis by (simp add: fnat_def inf_signed_def)
next
  case False
  then have "0 < real a / real N" using assms by simp
  then show ?thesis using False by (simp add: fnat_def)
qed

lemma logL1_value:
  assumes "0 < a + b" and "0 < c + e"
  shows "logL1 a b c e =
         (if a = 0 \<or> b = 0 \<or> c = 0 \<or> e = 0 then NaN
          else Fin (real a * ln (real a / real (a + b)) + real b * ln (real b / real (a + b))
                    + real c * ln (real c / real (c + e)) + real e * ln (real e / real (c + e))))"
proof -
  have t1: "fmul (fnat a) (flog (fsub (Fin 1) (fdiv (fnat b) (fnat (a + b))))) =
              (if a = 0 then NaN else Fin (real a * ln (real a / real (a + b))))"
    unfolding fsub_one_ratio [OF assms(1)] weighted_log [OF assms(1)] by simp
  have t2: "fmul (fnat b) (flog (fdiv (fnat b) (fnat (a + b)))) =
              (if b = 0 then NaN else Fin (real b * ln (real b / real (a + b))))"
    unfolding fdiv_ratio [OF assms(1)] weighted_log [OF assms(1)] by simp
  have t3: "fmul (fnat c) (flog (fsub (Fin 1) (fdiv (fnat e) (fnat (c + e))))) =
              (if c = 0 then NaN else Fin (real c * ln (real c / real (c + e))))"
    unfolding fsub_one_ratio [OF assms(2)] weighted_log [OF assms(2)] by simp
  have t4: "fmul (fnat e) (flog (fdiv (fnat e) (fnat (c + e)))) =
              (if e = 0 then NaN else Fin (real e * ln (real e / real (c + e))))"
    unfolding fdiv_ratio [OF assms(2)] weighted_log [OF assms(2)] by simp
  show ?thesis unfolding logL1_def Let_def t1 t2 t3 t4 by simp
qed

lemma logL0_value:
  assumes "0 < a + b" and "0 < c + e" and "0 < b + e"
  shows "logL0 a b c e =
         (if a + c = 0 then NInf
          else Fin (real (a + b) * ln (real (a + c) / real (a + b + c + e))
                    + real (c + e) * ln (real (b + e) / real (a + b + c + e))))"
proof -
  have N: "0 < (a + c) + (b + e)" using assms(3) by simp
  have eq: "a + b + c + e = (a + c) + (b + e)" by simp
  have be: "b + e \<noteq> 0" and ab: "a + b \<noteq> 0" using assms by simp_all
  have t1: "fmul (fnat (a + b)) (flog (fsub (Fin 1) (fdiv (fnat (b + e)) (fnat ((a + c) + (b + e)))))) =
              (if a + c = 0 then NInf
               else Fin (real (a + b) * ln (real (a + c) / real ((a + c) + (b + e)))))"
    unfolding fsub_one_ratio [OF N] weighted_log [OF N] by (simp only: ab if_False)
  have t2: "fmul (fnat (c + e)) (flog (fdiv (fnat (b + e)) (fnat ((a + c) + (b + e))))) =
              Fin (real (c + e) * ln (real (b + e) / real ((a + c) + (b + e))))"
    unfolding fdiv_ratio [OF N] weighted_log [OF N] by (simp only: be if_False)
  show ?thesis unfolding logL0_def Let_def eq t1 t2 by simp
qed

text \<open>
  For two or more observations the statistic is \<open>nan\<close> exactly when one of the four
  transition counts is zero.
\<close>

lemma christoffersen_nan_iff_zero_count:
  assumes "2 \<le> length x"
  shows "lr_ind (christoffersen_test cdf x) = NaN \<longleftrightarrow>
           count_tr 0 0 x = 0 \<or> count_tr 0 1 x = 0 \<or> count_tr 1 0 x = 0 \<or> count_tr 1 1 x = 0"
proof (cases "count_tr 0 1 x + count_tr 0 0 x = 0 \<or> count_tr 1 0 x + count_tr 1 1 x = 0 \<or>
              count_tr 0 1 x + count_tr 1 1 x = 0")
  case True
  then show ?thesis using assms by (auto simp: christoffersen_test_def Let_def)
next
  case False
  let ?a = "count_tr 0 0 x" and ?b = "count_tr 0 1 x" and ?c = "count_tr 1 0 x"
    and ?e = "count_tr 1 1 x"
  have p: "0 < ?a + ?b" "0 < ?c + ?e" "0 < ?b + ?e" using False by auto
  have lr: "lr_ind (christoffersen_test cdf x)
              = fmul (Fin (- 2)) (fsub (logL0 ?a ?b ?c ?e) (logL1 ?a ?b ?c ?e))"
    using assms False by (auto simp: christoffersen_test_def Let_def)
  show ?thesis
    unfolding lr logL1_value [OF p(1,2)] logL0_value [OF p]
    by (simp add: fsub_def)
qed

section \<open>The chi-square distribution function\<close>

lemma erf_coeff_bound: "norm (erf_coeff z k) \<le> norm (inverse (fact k) * (z\<^sup>2) ^ k) * \<bar>z\<bar>"
proof -
  have "1 \<le> 2 * real k + 1" by simp
  then have i: "inverse (2 * real k + 1) \<le> 1"
    by (simp add: inverse_le_1_iff)
  have nn: "0 \<le> \<bar>z\<bar> ^ (2 * k + 1) / fact k" by simp
  have "\<bar>z\<bar> ^ (2 * k + 1) / fact k * inverse (2 * real k + 1)
               \<le> \<bar>z\<bar> ^ (2 * k + 1) / fact k * 1"
    using i nn by (rule mult_left_mono)
  moreover have "\<bar>erf_coeff z k\<bar> = \<bar>z\<bar> ^ (2 * k + 1) / fact k * inverse (2 * real k + 1)"
    by (simp add: erf_coeff_def abs_mult power_abs divide_inverse)
  moreover have "\<bar>inverse (fact k) * (z\<^sup>2) ^ k\<bar> * \<bar>z\<bar> = \<bar>z\<bar> ^ (2 * k + 1) / fact k"
  proof -
    have "(z\<^sup>2) ^ k = z ^ (2 * k)" by (simp add: power_mult)
    then have "\<bar>(z\<^sup>2) ^ k\<bar> = \<bar>z\<bar> ^ (2 * k)" by (simp add: power_abs)
    then show ?thesis by (simp add: abs_mult divide_inverse)
  qed
  ultimately show ?thesis by simp
qed

lemma erf_coeff_tendsto_zero: "erf_coeff z \<longlonglongrightarrow> 0"
proof -
  have "summable (\<lambda>k. inverse (fact k) * (z\<^sup>2) ^ k)"
    by (rule summable_exp)
  then have lim: "(\<lambda>k. inverse (fact k) * (z\<^sup>2) ^ k) \<longlonglongrightarrow> 0"
    by (rule summable_LIMSEQ_zero)
  have "eventually (\<lambda>k. norm (erf_coeff z k) \<le> norm (inverse (fact k) * (z\<^sup>2) ^ k) * \<bar>z\<bar>)
          sequentially"
    by (rule always_eventually) (rule allI, rule erf_coeff_bound)
  with lim show ?thesis by (rule tendsto_0_le)
qed

lemma two_terms: "(\<Sum>i<2 * 1. (- 1) ^ i * erf_coeff z i) = z - z ^ 3 / 3"
proof -
  have "{..<2 * 1} = {0, 1::nat}" by auto
  then have "(\<Sum>i<2 * 1. (- 1) ^ i * erf_coeff z i)
               = (- 1) ^ 0 * erf_coeff z 0 + (- 1) ^ 1 * erf_coeff z 1"
    by simp
  also have "\<dots> = z - z ^ 3 / 3"
    by (simp add: erf_coeff_def)
  finally show ?thesis .
qed

lemma erf_coeff_nonneg: "0 \<le> z \<Longrightarrow> 0 \<le> erf_coeff z k"
  by (simp add: erf_coeff_def)

lemma erf_coeff_decreasing:
  assumes "0 \<le> z" and "z\<^sup>2 \<le> 3"
  shows "erf_coeff z (Suc k) \<le> erf_coeff z k"
proof -
  have k: "3 * (2 * real k + 1) \<le> (real k + 1) * (2 * real k + 3)"
  proof -
    have "real k \<le> 2 * real k * real k"
      by (cases "k = 0") (simp_all add: mult_le_cancel_right1)
    then show ?thesis by (simp add: algebra_simps)
  qed
  have "0 \<le> 2 * real k + 1" by simp
  then have "z\<^sup>2 * (2 * real k + 1) \<le> 3 * (2 * real k + 1)"
    using assms(2) by (rule mult_right_mono [rotated])
  then have step: "z\<^sup>2 * (2 * real k + 1) \<le> (real k + 1) * (2 * real k + 3)"
    using k by linarith
  have zk: "0 \<le> z ^ (2 * k + 1)" using assms(1) by simp
  have "z ^ (2 * Suc k + 1) * (fact k * (2 * real k + 1))
          = (z ^ (2 * k + 1) * fact k) * (z\<^sup>2 * (2 * real k + 1))"
    by (simp add: power2_eq_square algebra_simps)
  also have "\<dots> \<le> (z ^ (2 * k + 1) * fact k) * ((real k + 1) * (2 * real k + 3))"
    using zk step by (intro mult_left_mono) simp_all
  also have "\<dots> = z ^ (2 * k + 1) * (fact (Suc k) * (2 * real (Suc k) + 1))"
    by (simp add: algebra_simps)
  finally have "z ^ (2 * Suc k + 1) * (fact k * (2 * real k + 1))
                  \<le> z ^ (2 * k + 1) * (fact (Suc k) * (2 * real (Suc k) + 1))" .
  moreover have "0 < fact k * (2 * real k + 1)" "0 < fact (Suc k) * (2 * real (Suc k) + 1)"
    by (simp_all add: add_pos_nonneg)
  ultimately have "z ^ (2 * Suc k + 1) / (fact (Suc k) * (2 * real (Suc k) + 1))
                     \<le> z ^ (2 * k + 1) / (fact k * (2 * real k + 1))"
    by (simp add: frac_le_eq divide_le_0_iff field_simps del: fact_Suc power_Suc)
  then show ?thesis
    by (simp add: erf_coeff_def algebra_simps del: fact_Suc power_Suc)
qed

lemma erf_series_lower:
  assumes "0 \<le> z" and "z\<^sup>2 \<le> 3"
  shows "z - z ^ 3 / 3 \<le> (\<Sum>k. (- 1) ^ k * erf_coeff z k)"
proof -
  have "(\<Sum>i<2 * 1. (- 1) ^ i * erf_coeff z i) \<le> (\<Sum>i. (- 1) ^ i * erf_coeff z i)"
    by (rule summable_Leibniz'(2) [OF erf_coeff_tendsto_zero erf_coeff_nonneg [OF assms(1)]
          erf_coeff_decreasing [OF assms]])
  then show ?thesis by (simp only: two_terms)
qed

lemma erf_lower:
  assumes "0 \<le> z" and "z\<^sup>2 \<le> 3"
  shows "z - z ^ 3 / 3 \<le> erf z"
proof -
  let ?S = "\<Sum>k. (- 1) ^ k * erf_coeff z k"
  have "0 \<le> 1 - z\<^sup>2 / 3" using assms(2) by simp
  then have "0 \<le> z * (1 - z\<^sup>2 / 3)" using assms(1) by (rule mult_nonneg_nonneg [rotated])
  moreover have "z * (1 - z\<^sup>2 / 3) = z - z ^ 3 / 3"
    by (simp add: power2_eq_square power3_eq_cube algebra_simps)
  ultimately have nn: "0 \<le> z - z ^ 3 / 3" by simp
  have S: "z - z ^ 3 / 3 \<le> ?S" by (rule erf_series_lower [OF assms])
  then have S0: "0 \<le> ?S" using nn by linarith
  have "sqrt pi \<le> sqrt 4" using pi_less_4 by (simp only: real_sqrt_le_iff less_imp_le)
  then have "sqrt pi \<le> 2" by simp
  moreover have "0 < sqrt pi" by simp
  ultimately have c: "1 \<le> 2 / sqrt pi" by (simp add: le_divide_eq)
  have "1 * ?S \<le> 2 / sqrt pi * ?S"
    using c S0 by (rule mult_right_mono)
  then have "z - z ^ 3 / 3 \<le> 2 / sqrt pi * ?S" using S by linarith
  then show ?thesis by (simp only: erf_def)
qed

lemma example_lr_value:
  "- 2 * (real (10 - 2) * ln (1 - 1 / 20) + real 2 * ln (1 / 20)
          - real (10 - 2) * ln (1 - real 2 / real 10) - real 2 * ln (real 2 / real 10))
   = 2 * ln (2 ^ 36 / 19 ^ 8)"
proof -
  have l20: "ln (20::real) = 2 * ln 2 + ln 5"
  proof -
    have "ln (20::real) = ln (2 ^ 2 * 5)" by simp
    also have "\<dots> = ln (2 ^ 2) + ln 5" by (rule ln_mult_pos) simp_all
    also have "\<dots> = 2 * ln 2 + ln 5" by (simp only: ln_realpow of_nat_numeral)
    finally show ?thesis .
  qed
  have a: "ln (1 - 1 / 20 :: real) = ln 19 - (2 * ln 2 + ln 5)"
  proof -
    have "ln (1 - 1 / 20 :: real) = ln (19 / 20)" by simp
    also have "\<dots> = ln 19 - ln 20" by (rule ln_divide_pos) simp_all
    finally show ?thesis by (simp only: l20)
  qed
  have b: "ln (1 / 20 :: real) = - (2 * ln 2 + ln 5)"
  proof -
    have "ln (1 / 20 :: real) = ln 1 - ln 20" by (rule ln_divide_pos) simp_all
    then show ?thesis by (simp add: l20)
  qed
  have c: "ln (1 - real 2 / real 10) = 2 * ln 2 - ln 5"
  proof -
    have "ln (1 - real 2 / real 10) = ln (2 ^ 2 / 5)" by simp
    also have "\<dots> = ln (2 ^ 2) - ln 5" by (rule ln_divide_pos) simp_all
    finally show ?thesis by (simp only: ln_realpow of_nat_numeral)
  qed
  have d: "ln (real 2 / real 10) = - ln 5"
  proof -
    have "ln (real 2 / real 10) = ln (1 / 5)" by simp
    also have "\<dots> = ln 1 - ln 5" by (rule ln_divide_pos) simp_all
    finally show ?thesis by simp
  qed
  have e: "ln (2 ^ 36 / 19 ^ 8 :: real) = 36 * ln 2 - 8 * ln 19"
  proof -
    have "ln (2 ^ 36 / 19 ^ 8 :: real) = ln (2 ^ 36) - ln (19 ^ 8)"
      by (rule ln_divide_pos) simp_all
    then show ?thesis by (simp only: ln_realpow of_nat_numeral)
  qed
  show ?thesis unfolding a b c d e by simp
qed

lemma example_ln_lower: "121 / 100 \<le> ln (2 ^ 36 / 19 ^ 8 :: real)"
proof -
  have "exp (121 / 200 :: real) \<le> 1 + 121 / 200 + (121 / 200)\<^sup>2"
    by (rule exp_bound) simp_all
  then have h: "exp (121 / 200 :: real) \<le> 1971025 / 1000000"
    by (simp add: power2_eq_square)
  have "exp (121 / 100 :: real) = exp (2 * (121 / 200))" by simp
  also have "\<dots> = (exp (121 / 200)) ^ 2" by (rule exp_double)
  also have "\<dots> \<le> (1971025 / 1000000) ^ 2"
    using h by (intro power_mono) simp_all
  also have "\<dots> \<le> 2 ^ 36 / 19 ^ 8" by (simp add: power2_eq_square)
  finally have le: "exp (121 / 100 :: real) \<le> 2 ^ 36 / 19 ^ 8" .
  have pos: "(0::real) < 2 ^ 36 / 19 ^ 8" by simp
  show ?thesis by (rule iffD2 [OF ln_ge_iff [OF pos] le])
qed

lemma example_ln_upper: "ln (2 ^ 36 / 19 ^ 8 :: real) \<le> 8 / 5"
proof -
  have "1 + 4 / 5 + (4 / 5)\<^sup>2 / 2 \<le> exp (4 / 5 :: real)"
    by (rule exp_lower_Taylor_quadratic) simp
  then have h: "53 / 25 \<le> exp (4 / 5 :: real)"
    by (simp add: power2_eq_square)
  have "(2 ^ 36 / 19 ^ 8 :: real) \<le> (53 / 25) ^ 2" by (simp add: power2_eq_square)
  also have "\<dots> \<le> (exp (4 / 5)) ^ 2"
    using h by (intro power_mono) simp_all
  also have "\<dots> = exp (2 * (4 / 5))" by (rule exp_double [symmetric])
  finally have "(2 ^ 36 / 19 ^ 8 :: real) \<le> exp (8 / 5)" by simp
  then have "ln (2 ^ 36 / 19 ^ 8 :: real) \<le> ln (exp (8 / 5))"
    by (subst ln_le_cancel_iff) simp_all
  then show ?thesis by simp
qed

lemma example_cdf_above_half: "1 / 2 < chi2_cdf1 (2 * ln (2 ^ 36 / 19 ^ 8))"
proof -
  let ?t = "ln (2 ^ 36 / 19 ^ 8 :: real)"
  let ?z = "sqrt ?t"
  have lo: "121 / 100 \<le> ?t" by (rule example_ln_lower)
  have hi: "?t \<le> 8 / 5" by (rule example_ln_upper)
  have pos: "0 < 2 * ?t" using lo by simp
  have z2: "?z\<^sup>2 = ?t" using lo by simp
  have z0: "0 \<le> ?z" by simp
  have "(11 / 10)\<^sup>2 \<le> ?t" using lo by (simp add: power2_eq_square)
  then have z1: "11 / 10 \<le> ?z" by (rule real_le_rsqrt)
  have z23: "?z\<^sup>2 \<le> 3" using hi z2 by simp
  have "7 / 15 \<le> 1 - ?z\<^sup>2 / 3" using hi z2 by simp
  then have "11 / 10 * (7 / 15) \<le> ?z * (1 - ?z\<^sup>2 / 3)"
    using z1 by (intro mult_mono) simp_all
  moreover have "?z * (1 - ?z\<^sup>2 / 3) = ?z - ?z ^ 3 / 3"
    by (simp add: power2_eq_square power3_eq_cube algebra_simps)
  ultimately have "77 / 150 \<le> ?z - ?z ^ 3 / 3" by simp
  also have "\<dots> \<le> erf ?z" by (rule erf_lower [OF z0 z23])
  finally have "1 / 2 < erf ?z" by simp
  moreover have "chi2_cdf1 (2 * ?t) = erf ?z"
    using pos by (simp add: chi2_cdf1_def)
  ultimately show ?thesis by simp
qed

section \<open>Violation ratio\<close>

lemma rint_close: "\<bar>real_of_int (rint r) - r\<bar> \<le> 1 / 2"
proof -
  have "real_of_int \<lfloor>r\<rfloor> \<le> r" "r < real_of_int \<lfloor>r\<rfloor> + 1" by linarith+
  then show ?thesis by (auto simp: rint_def Let_def)
qed

lemma close_div:
  fixes a q :: real
  assumes "\<bar>a - q * 100\<bar> \<le> 1 / 2"
  shows "\<bar>a / 100 - q\<bar> \<le> 1 / 200"
  using assms by linarith

lemma backtest_var_ratio:
  assumes "length returns = length var_series"
  shows "\<exists>r. backtest_var cdf returns var_series alpha = Inr r \<and>
           violation_ratio r =
             fround2 (fdiv (fdiv (Fin (real (sum_list (exceptions returns var_series))))
                                 (Fin (real (length (exceptions returns var_series)))))
                           (Fin alpha))"
  using assms by (simp add: backtest_var_def Let_def split: prod.splits)

text \<open>
  Claim C8, as stated, at three observations with one violation and \<open>alpha = 0.05\<close>: the
  ratio \<open>(1/3) / 0.05\<close> is \<open>20/3\<close>, and the reported field is \<open>6.67\<close>.
\<close>

theorem kupiec_violation_ratio_not_exact:
  "map_sum id violation_ratio
     (backtest_var chi2_cdf1 (returns_of [1, 0, 0]) (var_of [1, 0, 0]) (1 / 20))
     = Inr (Fin (667 / 100)) \<and>
   (667 / 100 :: real) \<noteq> (real 1 / real 3) / (1 / 20)"
proof -
  have e: "exceptions (returns_of [1, 0, 0]) (var_of [1, 0, 0]) = [1, 0, 0]"
    by (simp add: returns_of_def var_of_def exceptions_def)
  have f: "\<lfloor>2000 / 3 :: real\<rfloor> = 666" by linarith
  have r: "rint (2000 / 3) = 667"
    by (simp add: rint_def Let_def f)
  obtain rep where rep: "backtest_var chi2_cdf1 (returns_of [1, 0, 0]) (var_of [1, 0, 0]) (1 / 20) = Inr rep"
      "violation_ratio rep =
         fround2 (fdiv (fdiv (Fin (real (sum_list (exceptions (returns_of [1, 0, 0]) (var_of [1, 0, 0])))))
                             (Fin (real (length (exceptions (returns_of [1, 0, 0]) (var_of [1, 0, 0]))))))
                       (Fin (1 / 20)))"
    using backtest_var_ratio [of "returns_of [1, 0, 0]" "var_of [1, 0, 0]" chi2_cdf1 "1 / 20"]
    by (auto simp: returns_of_def var_of_def)
  have "violation_ratio rep = Fin (667 / 100)"
    unfolding rep(2) e by (simp add: r)
  then show ?thesis using rep(1) by simp
qed

text \<open>
  Claim C8, amended. For aligned series with \<open>n > 0\<close> observations, \<open>x\<close> violations and
  \<open>alpha > 0\<close>, the reported violation ratio is \<open>(x/n) / alpha\<close> rounded to two decimals:
  a multiple of \<open>0.01\<close> within \<open>0.005\<close> of it. For the exceedances \<open>[0,0,0,1,0,0,1,0,0,0]\<close>
  and \<open>alpha = 0.05\<close> it is \<open>4.0\<close>, and the p-value, with the chi-square distribution
  function of one degree of freedom, is a number below \<open>0.5\<close>.
\<close>

theorem kupiec_violation_ratio_rounded:
  assumes "length returns = length var_series"
    and "n = length (exceptions returns var_series)"
    and "x = sum_list (exceptions returns var_series)"
    and "0 < n" and "0 < alpha"
  shows "\<exists>r. backtest_var cdf returns var_series alpha = Inr r \<and>
           (\<exists>k::int. violation_ratio r = Fin (real_of_int k / 100) \<and>
                     \<bar>real_of_int k / 100 - (real x / real n) / alpha\<bar> \<le> 1 / 200) \<and>
           (exceptions returns var_series = [0, 0, 0, 1, 0, 0, 1, 0, 0, 0] \<and> alpha = 1 / 20 \<longrightarrow>
              violation_ratio r = Fin 4) \<and>
           (exceptions returns var_series = [0, 0, 0, 1, 0, 0, 1, 0, 0, 0] \<and> alpha = 1 / 20 \<and>
            cdf = chi2_cdf1 \<longrightarrow> (\<exists>p. p_value r = Fin p \<and> p < 1 / 2))"
proof -
  obtain r where r: "backtest_var cdf returns var_series alpha = Inr r"
      "violation_ratio r = fround2 (fdiv (fdiv (Fin (real x)) (Fin (real n))) (Fin alpha))"
    using backtest_var_ratio [OF assms(1), of cdf alpha] unfolding assms(2,3) by blast
  let ?q = "real x / real n / alpha"
  have vr: "violation_ratio r = Fin (real_of_int (rint (?q * 100)) / 100)"
    unfolding r(2) using assms(4,5) by simp
  have "\<bar>real_of_int (rint (?q * 100)) - ?q * 100\<bar> \<le> 1 / 2" by (rule rint_close)
  then have close: "\<bar>real_of_int (rint (?q * 100)) / 100 - ?q\<bar> \<le> 1 / 200"
    by (rule close_div)
  have ex4: "violation_ratio r = Fin 4"
    if "exceptions returns var_series = [0, 0, 0, 1, 0, 0, 1, 0, 0, 0]" "alpha = 1 / 20"
  proof -
    have "x = 2" "n = 10" using that(1) assms(2,3) by simp_all
    then have "?q * 100 = 400" unfolding that(2) by simp
    moreover have "rint 400 = 400" by (simp add: rint_def Let_def)
    ultimately show ?thesis unfolding vr by simp
  qed
  have exp: "\<exists>p. p_value r = Fin p \<and> p < 1 / 2"
    if "exceptions returns var_series = [0, 0, 0, 1, 0, 0, 1, 0, 0, 0]" "alpha = 1 / 20"
      "cdf = chi2_cdf1"
  proof -
    have xn: "n = 10" "x = 2" using that(1) assms(2,3) by simp_all
    have a: "(0::real) < 1 / 20" "(1 / 20 :: real) < 1" by simp_all
    have n': "10 = length (exceptions returns var_series)"
      and x': "2 = sum_list (exceptions returns var_series)"
      using that(1) by simp_all
    have h: "(0::nat) < 2" "(2::nat) < 10" by simp_all
    from kupiec_lr_finite [OF a h]
    have lr: "fmul (Fin (- 2))
           (fsub (flog (fmul (fpow (Fin (1 - 1 / 20)) (10 - 2)) (fpow (Fin (1 / 20)) 2)))
                 (flog (fmul (fpow (fsub (Fin 1) (fdiv (Fin (real 2)) (Fin (real 10)))) (10 - 2))
                             (fpow (fdiv (Fin (real 2)) (Fin (real 10))) 2))))
         = Fin (2 * ln (2 ^ 36 / 19 ^ 8))"
      unfolding example_lr_value .
    have ne: "\<not> ((2::nat) = 0 \<or> (2::nat) = 10)" by simp
    let ?R = "\<lparr> alpha_of = 1 / 20, n_of = 10, violations = int 2,
              violation_ratio = fround2 (fdiv (fdiv (Fin (real 2)) (Fin (real 10))) (Fin (1 / 20))),
              kupiec_lr = Fin (2 * ln (2 ^ 36 / 19 ^ 8)),
              p_value = fsub (Fin 1) (fcdf chi2_cdf1 (Fin (2 * ln (2 ^ 36 / 19 ^ 8)))) \<rparr>"
    have "backtest_var chi2_cdf1 returns var_series (1 / 20) = Inr ?R"
      unfolding backtest_var_def Let_def n'[symmetric] x'[symmetric]
      using assms(1) ne lr by simp
    moreover have "backtest_var chi2_cdf1 returns var_series (1 / 20) = Inr r"
      using r(1) unfolding that(2,3) .
    ultimately have "Inr r = (Inr ?R :: error + kupiec_report)" by (simp only:)
    then have "r = ?R" by (simp only: sum.inject)
    then have "p_value r = p_value ?R" by (rule arg_cong)
    then have "p_value r = Fin (1 - chi2_cdf1 (2 * ln (2 ^ 36 / 19 ^ 8)))"
      by (simp add: fsub_def)
    moreover have "1 - chi2_cdf1 (2 * ln (2 ^ 36 / 19 ^ 8)) < 1 / 2"
      using example_cdf_above_half by linarith
    ultimately show ?thesis by blast
  qed
  show ?thesis using r(1) vr close ex4 exp by blast
qed

theorem kupiec_violation_ratio_rounded_witness:
  "length (returns_of [0, 0, 0, 1, 0, 0, 1, 0, 0, 0]) = length (var_of [0, 0, 0, 1, 0, 0, 1, 0, 0, 0]) \<and>
   exceptions (returns_of [0, 0, 0, 1, 0, 0, 1, 0, 0, 0]) (var_of [0, 0, 0, 1, 0, 0, 1, 0, 0, 0])
     = [0, 0, 0, 1, 0, 0, 1, 0, 0, 0] \<and>
   (\<exists>r p. backtest_var chi2_cdf1 (returns_of [0, 0, 0, 1, 0, 0, 1, 0, 0, 0])
             (var_of [0, 0, 0, 1, 0, 0, 1, 0, 0, 0]) (1 / 20) = Inr r \<and>
          violation_ratio r = Fin 4 \<and> p_value r = Fin p \<and> p < 1 / 2)"
proof -
  let ?e = "[0, 0, 0, 1, 0, 0, 1, 0, 0, 0] :: nat list"
  have l: "length (returns_of ?e) = length (var_of ?e)"
    by (simp add: returns_of_def var_of_def)
  have e: "exceptions (returns_of ?e) (var_of ?e) = ?e"
    by (simp add: returns_of_def var_of_def exceptions_def)
  have n: "10 = length (exceptions (returns_of ?e) (var_of ?e))"
    and x: "2 = sum_list (exceptions (returns_of ?e) (var_of ?e))"
    unfolding e by simp_all
  from kupiec_violation_ratio_rounded [OF l n x, of "1 / 20" chi2_cdf1]
  obtain r where r: "backtest_var chi2_cdf1 (returns_of ?e) (var_of ?e) (1 / 20) = Inr r"
      "exceptions (returns_of ?e) (var_of ?e) = ?e \<and> (1 / 20 :: real) = 1 / 20 \<longrightarrow>
         violation_ratio r = Fin 4"
      "exceptions (returns_of ?e) (var_of ?e) = ?e \<and> (1 / 20 :: real) = 1 / 20 \<and>
         chi2_cdf1 = chi2_cdf1 \<longrightarrow> (\<exists>p. p_value r = Fin p \<and> p < 1 / 2)"
    by auto
  from r(2) e have v: "violation_ratio r = Fin 4" by blast
  from r(3) e obtain p where p: "p_value r = Fin p" "p < 1 / 2" by blast
  show ?thesis using l e r(1) v p by blast
qed

section \<open>Binary64 arithmetic\<close>

lemma b64_zero: "b64 0 = Fin 0"
  by (simp add: b64_def)

lemma floor_log2_le:
  assumes "0 < r" and "r < pow2 k"
  shows "\<lfloor>log 2 r\<rfloor> < k"
proof -
  have p: "pow2 k = 2 powr real_of_int k"
    by (simp add: pow2_def powr_real_of_int inverse_eq_divide)
  have "log 2 r < real_of_int k"
    using assms unfolding p by (simp add: log_less_iff)
  then show ?thesis by linarith
qed

lemma rint_small:
  assumes "0 \<le> m" and "m < 1 / 2"
  shows "rint m = 0"
proof -
  have "\<lfloor>m\<rfloor> = 0" using assms by linarith
  then show ?thesis using assms by (simp add: rint_def Let_def)
qed

lemma b64_underflow:
  assumes "0 < r" and "r < 1 / 2 ^ 1075"
  shows "b64 r = Fin 0"
proof -
  have "r < pow2 (- 1075)" using assms(2) by (simp add: pow2_def)
  then have fl: "\<lfloor>log 2 r\<rfloor> < - 1075" by (rule floor_log2_le [OF assms(1)])
  have ab: "\<bar>r\<bar> = r" using assms(1) by simp
  have "\<lfloor>log 2 r\<rfloor> - 52 \<le> - 1074" using fl by linarith
  then have e: "max (\<lfloor>log 2 r\<rfloor> - 52) (- 1074) = - 1074"
    by (rule max_absorb2)
  have p: "pow2 (- 1074) = 1 / 2 ^ 1074" by (simp add: pow2_def)
  have "r * 2 ^ 1074 < 1 / 2 ^ 1075 * 2 ^ 1074"
    using assms(2) by (rule mult_strict_right_mono) simp
  then have "r * 2 ^ 1074 < 1 / 2" by simp
  moreover have "0 \<le> r * 2 ^ 1074" using assms(1) by simp
  ultimately have "rint (r * 2 ^ 1074) = 0" by (rule rint_small [rotated])
  then have "rint (r / pow2 (- 1074)) = 0" by (simp add: p)
  then show ?thesis using assms(1) by (simp add: b64_def e Let_def)
qed

lemma floor_log2_twentieth: "\<lfloor>log 2 (1 / 20 :: real)\<rfloor> = - 5"
proof -
  have a: "(2::real) powr (- 5) = 1 / 32"
    by (simp add: powr_minus inverse_eq_divide)
  have b: "(2::real) powr (- 4) = 1 / 16"
    by (simp add: powr_minus inverse_eq_divide)
  have "(2::real) powr real_of_int (- 5) \<le> 1 / 20 \<and> 1 / 20 < (2::real) powr real_of_int (- 5 + 1)"
    using a b by simp
  then show ?thesis
    by (subst floor_log_eq_powr_iff) simp_all
qed

lemma rint_up:
  assumes "real_of_int k - 1 / 2 < m" and "m < real_of_int k"
  shows "rint m = k"
proof -
  have f: "\<lfloor>m\<rfloor> = k - 1" using assms by linarith
  have "1 / 2 < m - real_of_int (k - 1)" using assms by simp
  then show ?thesis unfolding rint_def Let_def f by simp
qed

lemma b64_twentieth: "b64 (1 / 20) = Fin alpha05"
proof -
  have e: "max (\<lfloor>log 2 \<bar>1 / 20 :: real\<bar>\<rfloor> - 52) (- 1074) = - 57"
    using floor_log2_twentieth by simp
  have p: "pow2 (- 57) = 1 / 2 ^ 57" by (simp add: pow2_def)
  have m: "(1 / 20) / pow2 (- 57) = (2 ^ 57 / 20 :: real)" by (simp add: p)
  have r: "rint (2 ^ 57 / 20) = 7205759403792794"
    by (rule rint_up) simp_all
  have v: "real_of_int 7205759403792794 * pow2 (- 57) = alpha05"
    by (simp add: p alpha05_def)
  have small: "\<not> 2 ^ 1024 \<le> \<bar>alpha05\<bar>" by (simp add: alpha05_def)
  have "b64 (1 / 20) =
          (let v = real_of_int (rint ((1 / 20) / pow2 (- 57))) * pow2 (- 57)
           in if 2 ^ 1024 \<le> \<bar>v\<bar> then (if (0::real) < 1 / 20 then PInf else NInf) else Fin v)"
    unfolding b64_def e Let_def by simp
  also have "\<dots> = Fin alpha05"
    unfolding m r v Let_def using small by simp
  finally show ?thesis .
qed

lemma alpha05_power_tiny: "alpha05 ^ 250 < 1 / 2 ^ 1075"
proof -
  have a0: "0 \<le> alpha05" and a1: "alpha05 \<le> 501 / 10000"
    by (simp_all add: alpha05_def)
  have "alpha05 ^ 10 \<le> (501 / 10000) ^ 10"
    using a1 a0 by (rule power_mono)
  also have "\<dots> < 1 / 2 ^ 43" by (simp add: power_divide)
  finally have t: "alpha05 ^ 10 < 1 / 2 ^ 43" .
  have "alpha05 ^ 250 = (alpha05 ^ 10) ^ 25" by (simp add: power_mult [symmetric])
  also have "\<dots> < (1 / 2 ^ 43) ^ 25"
    using t a0 by (intro power_strict_mono) simp_all
  also have "\<dots> = 1 / 2 ^ 1075" by (simp add: power_divide power_mult [symmetric])
  finally show ?thesis .
qed

lemma b64_alpha05_power: "b64 (alpha05 ^ 250) = Fin 0"
proof -
  have "0 < alpha05" by (simp add: alpha05_def)
  then have "0 < alpha05 ^ 250" by simp
  then show ?thesis using alpha05_power_tiny by (rule b64_underflow)
qed

lemma rd_exact: "rd Fin v = v"
  by (cases v) (simp_all add: rd_def)

lemma fround2r_exact: "fround2r Fin v = fround2 v"
  by (cases v) (simp_all add: fround2r_def rd_def inf_signed_def)

text \<open>With exact arithmetic the rounded function is \<open>backtest_var\<close>.\<close>

lemma fsub_finite: "fsub (Fin a) (Fin b) = Fin (a - b)"
  by (simp add: fsub_def)

lemma backtest_var_rounded_exact:
  "backtest_var_rounded Fin cdf returns var_series alpha = backtest_var cdf returns var_series alpha"
  by (simp only: backtest_var_rounded_def backtest_var_def rd_exact fround2r_exact fsub_finite
      Let_def)

lemma exceptions_of_sample:
  "exceptions (returns_of exs) (var_of exs) = map (\<lambda>e. if e = 0 then 0 else 1) exs"
  by (induction exs) (simp_all add: exceptions_def returns_of_def var_of_def)

lemma every_20th_binary: "map (\<lambda>e. if e = 0 then 0 else 1) (every_20th k) = every_20th k"
  by (induction k) simp_all

lemma every_20th_length: "length (every_20th k) = 20 * k"
  by (induction k) simp_all

lemma every_20th_sum: "sum_list (every_20th k) = k"
  by (induction k) simp_all

lemma zero_product_log:
  "rd b64 (flog (rd b64 (fmul P (Fin 0)))) = NInf \<or> rd b64 (flog (rd b64 (fmul P (Fin 0)))) = NaN"
  by (cases P) (simp_all add: rd_def b64_zero inf_signed_def)

lemma lost_statistic:
  assumes "l0 = NInf \<or> l0 = NaN" and "l1 = NInf \<or> l1 = NaN"
  shows "rd b64 (fmul (Fin (- 2)) (rd b64 (fsub l0 l1))) = NaN"
  using assms by (auto simp: rd_def fsub_def)

lemma backtest_var_rounded_fields:
  assumes "length returns = length var_series"
    and "n = length (exceptions returns var_series)"
    and "x = sum_list (exceptions returns var_series)"
    and "\<not> (x = 0 \<or> x = n)"
    and "pi_hat = rd rnd (fdiv (Fin (real x)) (Fin (real n)))"
    and "lr = rd rnd (fmul (Fin (- 2)) (rd rnd (fsub
                (rd rnd (flog (rd rnd (fmul
                            (rd rnd (fpow (rd rnd (fsub (Fin 1) (Fin alpha))) (n - x)))
                            (rd rnd (fpow (Fin alpha) x))))))
                (rd rnd (flog (rd rnd (fmul
                            (rd rnd (fpow (rd rnd (fsub (Fin 1) pi_hat)) (n - x)))
                            (rd rnd (fpow pi_hat x)))))))))"
  shows "map_sum id kupiec_lr (backtest_var_rounded rnd cdf returns var_series alpha) = Inr lr \<and>
         map_sum id p_value (backtest_var_rounded rnd cdf returns var_series alpha)
           = Inr (rd rnd (fsub (Fin 1) (rd rnd (fcdf cdf lr))))"
  unfolding backtest_var_rounded_def Let_def assms(2)[symmetric] assms(3)[symmetric]
    assms(5)[symmetric]
  using assms(1,4) by (simp add: assms(6))

text \<open>
  Claim C3 at 5000 observations with 250 violations, one in every twenty, and the float
  \<open>alpha = 0.05\<close>, in binary64 arithmetic. Here \<open>0 < x < n\<close>, and \<open>pi_hat = 250/5000\<close> rounds
  to the same float as \<open>0.05\<close>. The power \<open>alpha ** 250\<close> is below half the smallest
  subnormal and rounds to zero, so each product of powers is zero, each logarithm is
  minus infinity, their difference is \<open>nan\<close>, and the function reports \<open>nan\<close> for the
  statistic and for the p-value.
\<close>

theorem kupiec_underflow_nan:
  "length (every_20th 250) = 5000 \<and> sum_list (every_20th 250) = 250 \<and>
   exceptions (returns_of (every_20th 250)) (var_of (every_20th 250)) = every_20th 250 \<and>
   b64 (1 / 20) = Fin alpha05 \<and>
   b64 (alpha05 ^ 250) = Fin 0 \<and>
   map_sum id kupiec_lr
     (backtest_var_rounded b64 chi2_cdf1 (returns_of (every_20th 250)) (var_of (every_20th 250))
        alpha05) = Inr NaN \<and>
   map_sum id p_value
     (backtest_var_rounded b64 chi2_cdf1 (returns_of (every_20th 250)) (var_of (every_20th 250))
        alpha05) = Inr NaN"
proof -
  let ?e = "every_20th 250"
  have ex: "exceptions (returns_of ?e) (var_of ?e) = ?e"
    by (simp only: exceptions_of_sample every_20th_binary)
  have len: "length ?e = 5000" by (simp add: every_20th_length)
  have sm: "sum_list ?e = 250" by (rule every_20th_sum)
  have l: "length (returns_of ?e) = length (var_of ?e)"
    by (simp add: returns_of_def var_of_def)
  have n: "5000 = length (exceptions (returns_of ?e) (var_of ?e))"
    by (simp only: ex len)
  have x: "250 = sum_list (exceptions (returns_of ?e) (var_of ?e))"
    by (simp only: ex sm)
  have ne: "\<not> ((250::nat) = 0 \<or> (250::nat) = 5000)" by simp
  have pi: "Fin alpha05 = rd b64 (fdiv (Fin (real 250)) (Fin (real 5000)))"
    by (simp add: rd_def b64_twentieth)
  have pw: "rd b64 (fpow (Fin alpha05) 250) = Fin 0"
    by (simp add: rd_def b64_alpha05_power)
  let ?l0 = "rd b64 (flog (rd b64 (fmul
                (rd b64 (fpow (rd b64 (fsub (Fin 1) (Fin alpha05))) (5000 - 250)))
                (rd b64 (fpow (Fin alpha05) 250)))))"
  have l0: "?l0 = NInf \<or> ?l0 = NaN"
    unfolding pw by (rule zero_product_log)
  have lr: "NaN = rd b64 (fmul (Fin (- 2)) (rd b64 (fsub ?l0 ?l0)))"
    by (rule lost_statistic [OF l0 l0, symmetric])
  have p: "rd b64 (fsub (Fin 1) (rd b64 (fcdf chi2_cdf1 NaN))) = NaN"
    by (simp add: rd_def fsub_def)
  note f = backtest_var_rounded_fields [OF l n x ne pi lr, of chi2_cdf1, unfolded p]
  show ?thesis
    using len sm ex b64_twentieth b64_alpha05_power f by simp
qed

end
